theory Spec2Isabelle
  imports Complex_Main "HOL-Library.Multiset"
begin

section \<open>Python values, attribute dictionaries and exceptions\<close>

text \<open>
  The module \<^verbatim>\<open>osm_graph.py\<close> keeps a \<^verbatim>\<open>networkx.MultiDiGraph\<close> whose node and
  edge attributes are Python dictionaries with string keys. The values that the module
  itself stores are integers (\<^verbatim>\<open>osm_id\<close>, \<^verbatim>\<open>segment\<close>), floats (\<^verbatim>\<open>lon\<close>,
  \<^verbatim>\<open>lat\<close>, \<^verbatim>\<open>length\<close>), lists of node references (\<^verbatim>\<open>ndref\<close>), shapely line
  strings (\<^verbatim>\<open>geometry\<close>) and whatever strings the tag normaliser returns. Floats are
  modelled as reals: no rounding, no NaN.
\<close>

datatype pyval =
    VInt int
  | VFloat real
  | VStr string
  | VRefs "int list"
  | VLine "(real \<times> real) list"

text \<open>
  A dictionary with string keys is a map: \<^verbatim>\<open>d[k]\<close> is \<open>d k\<close> (\<open>None\<close> where
  Python raises \<^verbatim>\<open>KeyError\<close>), \<^verbatim>\<open>d[k] = v\<close> is \<open>d(k \<mapsto> v)\<close>, \<^verbatim>\<open>del d[k]\<close> is
  \<open>d(k := None)\<close>, and \<^verbatim>\<open>a.update(b)\<close> (also \<^verbatim>\<open>{**a, **b}\<close>) is \<open>a ++ b\<close>. Two
  dictionaries are equal in Python when they map the same keys to the same values.
\<close>

type_synonym attrs = "string \<rightharpoonup> pyval"

text \<open>
  The exceptions of the model. \<open>GeometryError\<close> is the class the specification names for
  an unresolved node reference; the source defines no such class.
\<close>

datatype pyerr =
    KeyError
  | TypeError
  | AttributeError
  | StopIteration
  | UnboundLocalError
  | NetworkXError
  | ShapelyError
  | GeometryError

primrec num_of :: "pyval \<Rightarrow> real option" where
  "num_of (VInt i) = Some (of_int i)"
| "num_of (VFloat r) = Some r"
| "num_of (VStr s) = None"
| "num_of (VRefs l) = None"
| "num_of (VLine c) = None"

text \<open>Python's \<^verbatim>\<open>==\<close>: an int and a float that denote the same number are equal.\<close>

definition py_eq :: "pyval \<Rightarrow> pyval \<Rightarrow> bool" where
  "py_eq a b = (case num_of a of
                  Some x \<Rightarrow> (case num_of b of Some y \<Rightarrow> x = y | None \<Rightarrow> False)
                | None \<Rightarrow> a = b)"

text \<open>A list cannot be a dictionary key.\<close>

primrec hashable :: "pyval \<Rightarrow> bool" where
  "hashable (VInt i) = True"
| "hashable (VFloat r) = True"
| "hashable (VStr s) = True"
| "hashable (VRefs l) = False"
| "hashable (VLine c) = True"

text \<open>A loop whose body may raise: the first exception ends it.\<close>

fun foldE :: "('a \<Rightarrow> 's \<Rightarrow> pyerr + 's) \<Rightarrow> 'a list \<Rightarrow> 's \<Rightarrow> pyerr + 's" where
  "foldE f [] s = Inr s"
| "foldE f (x # xs) s = (case f x s of Inl e \<Rightarrow> Inl e | Inr s' \<Rightarrow> foldE f xs s')"

text \<open>
  A loop over a state that its body changes in place: when the body raises, the loop ends
  and the state stays as the body left it.
\<close>

fun foldS :: "('a \<Rightarrow> 's \<Rightarrow> 's \<times> pyerr option) \<Rightarrow> 'a list \<Rightarrow> 's \<Rightarrow> 's \<times> pyerr option" where
  "foldS f [] s = (s, None)"
| "foldS f (x # xs) s =
     (case f x s of
        (s', None) \<Rightarrow> foldS f xs s'
      | (s', Some err) \<Rightarrow> (s', Some err))"

fun mapE :: "('a \<Rightarrow> pyerr + 'b) \<Rightarrow> 'a list \<Rightarrow> pyerr + 'b list" where
  "mapE f [] = Inr []"
| "mapE f (x # xs) =
     (case f x of
        Inl e \<Rightarrow> Inl e
      | Inr y \<Rightarrow> (case mapE f xs of Inl e \<Rightarrow> Inl e | Inr ys \<Rightarrow> Inr (y # ys)))"

section \<open>The directed multigraph of networkx\<close>

text \<open>
  networkx is a library the module imports; its \<^verbatim>\<open>MultiDiGraph\<close> is modelled here from
  its documented behaviour. The node table \<^verbatim>\<open>_node\<close> is an insertion-ordered dictionary:
  a list of pairs. The adjacency \<^verbatim>\<open>_succ[u][v][key]\<close> (and its mirror \<^verbatim>\<open>_pred\<close>) is a
  list of edges in insertion order: the neighbours of a node are the targets of its edges
  in the order of their first edge, and the keys between two nodes are in the order of
  their edges. The module only ever appends an edge or removes the last edge between two
  nodes, and both keep this reading of the list.
\<close>

record edge =
  eu :: int
  ev :: int
  ekey :: pyval
  edata :: attrs

record graph =
  nodes :: "(int \<times> attrs) list"
  edges :: "edge list"

definition empty_graph :: graph where
  "empty_graph = \<lparr>nodes = [], edges = []\<rparr>"

definition node_ids :: "graph \<Rightarrow> int list" where
  "node_ids G = map fst (nodes G)"

definition has_node :: "graph \<Rightarrow> int \<Rightarrow> bool" where
  "has_node G n = (n \<in> set (node_ids G))"

text \<open>The keys of a dictionary filled in the order of \<open>xs\<close>.\<close>

fun uniq :: "'a list \<Rightarrow> 'a list" where
  "uniq [] = []"
| "uniq (x # xs) = x # uniq (filter (\<lambda>y. y \<noteq> x) xs)"

definition successors :: "graph \<Rightarrow> int \<Rightarrow> int list" where
  "successors G n = uniq (map ev (filter (\<lambda>e. eu e = n) (edges G)))"

definition predecessors :: "graph \<Rightarrow> int \<Rightarrow> int list" where
  "predecessors G n = uniq (map eu (filter (\<lambda>e. ev e = n) (edges G)))"

text \<open>\<^verbatim>\<open>_succ[u][v]\<close>: the edges from \<open>u\<close> to \<open>v\<close>, by key, oldest first.\<close>

definition pair_edges :: "graph \<Rightarrow> int \<Rightarrow> int \<Rightarrow> edge list" where
  "pair_edges G u v = filter (\<lambda>e. eu e = u \<and> ev e = v) (edges G)"

text \<open>\<^verbatim>\<open>G[u][v][k]\<close>: a \<^verbatim>\<open>KeyError\<close> when there is no such edge.\<close>

definition get_edge :: "graph \<Rightarrow> int \<Rightarrow> int \<Rightarrow> pyval \<Rightarrow> pyerr + edge" where
  "get_edge G u v k =
     (case filter (\<lambda>e. py_eq (ekey e) k) (pair_edges G u v) of
        [] \<Rightarrow> Inl KeyError
      | e # _ \<Rightarrow> Inr e)"

text \<open>
  \<^verbatim>\<open>G.edges(data=True)\<close>: for every node in the order of the node table, for every
  neighbour, for every key.
\<close>

definition edges_view :: "graph \<Rightarrow> edge list" where
  "edges_view G =
     concat (map (\<lambda>n. concat (map (\<lambda>v. pair_edges G n v) (successors G n))) (node_ids G))"

text \<open>
  \<^verbatim>\<open>new_edge_key\<close>: \<^verbatim>\<open>key = len(keydict); while key in keydict: key += 1\<close>. The loop ends
  because no key of the dictionary lies beyond the largest number among them.
\<close>

definition key_nat :: "pyval \<Rightarrow> nat" where
  "key_nat k = (case num_of k of Some r \<Rightarrow> nat \<lfloor>r\<rfloor> | None \<Rightarrow> 0)"

definition key_in :: "nat \<Rightarrow> pyval list \<Rightarrow> bool" where
  "key_in k ks = list_ex (\<lambda>x. py_eq x (VInt (int k))) ks"

function key_loop :: "pyval list \<Rightarrow> nat \<Rightarrow> nat" where
  "key_loop ks k = (if key_in k ks then key_loop ks (Suc k) else k)"
  by pat_completeness auto
termination
proof (relation "measure (\<lambda>(ks, k). Suc (Max (set (0 # map key_nat ks))) - k)")
  show "wf (measure (\<lambda>(ks, k). Suc (Max (set (0 # map key_nat ks))) - k))"
    by simp
next
  fix ks :: "pyval list" and k :: nat
  assume "key_in k ks"
  then obtain x where x: "x \<in> set ks" "py_eq x (VInt (int k))"
    by (auto simp: key_in_def list_ex_iff)
  from x(2) have "key_nat x = k"
    by (cases x) (simp_all add: py_eq_def key_nat_def)
  with x(1) have "k \<in> set (0 # map key_nat ks)"
    by force
  then have "k \<le> Max (set (0 # map key_nat ks))"
    by (intro Max_ge) auto
  then show "((ks, Suc k), (ks, k)) \<in> measure (\<lambda>(ks, k). Suc (Max (set (0 # map key_nat ks))) - k)"
    by simp
qed

declare key_loop.simps [simp del]

definition new_edge_key :: "graph \<Rightarrow> int \<Rightarrow> int \<Rightarrow> pyval" where
  "new_edge_key G u v =
     (let ks = map ekey (pair_edges G u v) in VInt (int (key_loop ks (length ks))))"

text \<open>A node that an edge mentions first is registered with an empty attribute dictionary.\<close>

definition ensure_node :: "graph \<Rightarrow> int \<Rightarrow> graph" where
  "ensure_node G n = (if has_node G n then G else G\<lparr>nodes := nodes G @ [(n, Map.empty)]\<rparr>)"

text \<open>\<^verbatim>\<open>add_node(n, **attr)\<close>: registers the node or updates its attributes.\<close>

definition add_node :: "graph \<Rightarrow> int \<Rightarrow> attrs \<Rightarrow> graph" where
  "add_node G n attr =
     (if has_node G n
      then G\<lparr>nodes := map (\<lambda>(m, a). if m = n then (m, a ++ attr) else (m, a)) (nodes G)\<rparr>
      else G\<lparr>nodes := nodes G @ [(n, attr)]\<rparr>)"

text \<open>Updates the data of the first element that satisfies \<open>P\<close>.\<close>

fun update_first :: "('a \<Rightarrow> bool) \<Rightarrow> ('a \<Rightarrow> 'a) \<Rightarrow> 'a list \<Rightarrow> 'a list" where
  "update_first P f [] = []"
| "update_first P f (x # xs) = (if P x then f x # xs else x # update_first P f xs)"

fun remove_first :: "('a \<Rightarrow> bool) \<Rightarrow> 'a list \<Rightarrow> 'a list" where
  "remove_first P [] = []"
| "remove_first P (x # xs) = (if P x then xs else x # remove_first P xs)"

definition remove_last :: "('a \<Rightarrow> bool) \<Rightarrow> 'a list \<Rightarrow> 'a list" where
  "remove_last P xs = rev (remove_first P (rev xs))"

definition is_edge :: "int \<Rightarrow> int \<Rightarrow> pyval \<Rightarrow> edge \<Rightarrow> bool" where
  "is_edge u v k e = (eu e = u \<and> ev e = v \<and> py_eq (ekey e) k)"

text \<open>
  \<^verbatim>\<open>MultiDiGraph.add_edge(u, v, key=None, **attr)\<close>: registers the two nodes, takes a
  new key when none is given, and then either updates the data of the edge that has the
  key or appends a new edge. It returns the key.
\<close>

definition add_edge :: "graph \<Rightarrow> int \<Rightarrow> int \<Rightarrow> pyval option \<Rightarrow> attrs \<Rightarrow> graph \<times> pyval" where
  "add_edge G u v key attr =
     (let G1 = ensure_node (ensure_node G u) v;
          k = (case key of None \<Rightarrow> new_edge_key G1 u v | Some k' \<Rightarrow> k')
      in if list_ex (is_edge u v k) (edges G1)
         then (G1\<lparr>edges := update_first (is_edge u v k)
                              (\<lambda>e. e\<lparr>edata := edata e ++ attr\<rparr>) (edges G1)\<rparr>, k)
         else (G1\<lparr>edges := edges G1 @ [\<lparr>eu = u, ev = v, ekey = k, edata = attr\<rparr>]\<rparr>, k))"

text \<open>
  \<^verbatim>\<open>add_edges_from([(u, v, dd)])\<close> with a dictionary \<open>dd\<close>, the only form the module uses:
  \<^verbatim>\<open>key = self.add_edge(u, v, None)\<close> and then \<^verbatim>\<open>self[u][v][key].update(ddd)\<close> with
  \<open>ddd\<close> a fresh copy of \<open>dd\<close>.
\<close>

definition add_edges_from :: "graph \<Rightarrow> int \<Rightarrow> int \<Rightarrow> attrs \<Rightarrow> graph" where
  "add_edges_from G u v dd =
     (case add_edge G u v None Map.empty of
        (G1, k) \<Rightarrow> G1\<lparr>edges := update_first (is_edge u v k)
                                 (\<lambda>e. e\<lparr>edata := edata e ++ dd\<rparr>) (edges G1)\<rparr>)"

text \<open>
  \<^verbatim>\<open>remove_edge(u, v)\<close> without a key: \<^verbatim>\<open>popitem()\<close> on the key dictionary removes the
  edge added last between the two nodes; \<^verbatim>\<open>NetworkXError\<close> when there is none.
\<close>

definition remove_edge :: "graph \<Rightarrow> int \<Rightarrow> int \<Rightarrow> pyerr + graph" where
  "remove_edge G u v =
     (if pair_edges G u v = [] then Inl NetworkXError
      else Inr (G\<lparr>edges := remove_last (\<lambda>e. eu e = u \<and> ev e = v) (edges G)\<rparr>))"

section \<open>The builder: \<^verbatim>\<open>OSMGraph.from_pbf\<close>\<close>

text \<open>
  osmium hands the handler one way at a time: its id, its tags, and its node references
  with their locations (the file is read with \<^verbatim>\<open>locations=True\<close>). The tag normaliser
  \<^verbatim>\<open>OSWNormalizer\<close> is another module: it is a parameter \<open>normalizer\<close>. The progress bar
  has no effect on the graph and is left out.
\<close>

record way_node =
  ref :: int
  lon :: real
  lat :: real

record osm_way =
  wid :: int
  wtags :: "(string \<times> string) list"
  wnodes :: "way_node list"

type_synonym way_filter = "((string \<times> string) list \<Rightarrow> bool) option"

definition accepts :: "way_filter \<Rightarrow> (string \<times> string) list \<Rightarrow> bool" where
  "accepts flt t = (case flt of None \<Rightarrow> True | Some f \<Rightarrow> f t)"

definition coords_attr :: "way_node \<Rightarrow> attrs" where
  "coords_attr n = [''lon'' \<mapsto> VFloat (lon n), ''lat'' \<mapsto> VFloat (lat n)]"

text \<open>The body of \<^verbatim>\<open>for i in range(len(w.nodes) - 1)\<close>.\<close>

definition way_segment :: "attrs \<Rightarrow> way_node list \<Rightarrow> nat \<Rightarrow> graph \<Rightarrow> graph" where
  "way_segment d2 ns i G =
     (let u = ns ! i;
          v = ns ! (i + 1);
          d3 = d2(''segment'' \<mapsto> VInt (int i), ''ndref'' \<mapsto> VRefs [ref u, ref v]);
          G1 = add_edges_from G (ref u) (ref v) d3;
          G2 = add_node G1 (ref u) (coords_attr u)
      in add_node G2 (ref v) (coords_attr v))"

definition OSMParser_way ::
  "way_filter \<Rightarrow> ((string \<times> string) list \<Rightarrow> attrs) \<Rightarrow> graph \<Rightarrow> osm_way \<Rightarrow> graph" where
  "OSMParser_way flt normalizer G w =
     (if \<not> accepts flt (wtags w) then G
      else let d = [''osm_id'' \<mapsto> VInt (wid w)];
               d2 = d ++ normalizer (wtags w)
           in fold (way_segment d2 (wnodes w))
                [0 ..< nat (int (length (wnodes w)) - 1)] G)"

definition from_pbf ::
  "osm_way list \<Rightarrow> way_filter \<Rightarrow> ((string \<times> string) list \<Rightarrow> attrs) \<Rightarrow> graph" where
  "from_pbf pbf flt normalizer = fold (\<lambda>w G. OSMParser_way flt normalizer G w) pbf empty_graph"

section \<open>The simplifier: \<^verbatim>\<open>OSMGraph.simplify\<close>\<close>

text \<open>
  The first loop collects, per way id, the tuples
  \<^verbatim>\<open>(node_in, node, node_out, edge_in["segment"])\<close> of the nodes it selects. The
  dictionary \<^verbatim>\<open>remove_nodes\<close> keeps the order in which its keys arrive.
\<close>

type_synonym node_data = "int \<times> int \<times> int \<times> pyval"

type_synonym remove_nodes = "(pyval \<times> node_data list) list"

fun rn_append :: "remove_nodes \<Rightarrow> pyval \<Rightarrow> node_data \<Rightarrow> remove_nodes" where
  "rn_append [] k nd = [(k, [nd])]"
| "rn_append ((k', l) # r) k nd =
     (if py_eq k' k then (k', l @ [nd]) # r else (k', l) # rn_append r k nd)"

text \<open>
  The body of \<^verbatim>\<open>for node in self.G.nodes\<close>. \<^verbatim>\<open>predecessors\<close> and \<^verbatim>\<open>successors\<close>
  list neighbouring nodes, so parallel edges count once; \<^verbatim>\<open>edge_in\<close> and \<^verbatim>\<open>edge_out\<close>
  are the edges with key 0.
\<close>

definition classify_node :: "graph \<Rightarrow> int \<Rightarrow> remove_nodes \<Rightarrow> pyerr + remove_nodes" where
  "classify_node G node rn =
     (let preds = predecessors G node;
          succs = successors G node
      in if length preds = 1 \<and> length succs = 1
         then
           (let node_in = hd preds;
                node_out = hd succs
            in case get_edge G node_in node (VInt 0) of
                 Inl err \<Rightarrow> Inl err
               | Inr edge_in \<Rightarrow>
             (case get_edge G node node_out (VInt 0) of
                 Inl err \<Rightarrow> Inl err
               | Inr edge_out \<Rightarrow>
             (case edata edge_in ''osm_id'' of
                 None \<Rightarrow> Inl KeyError
               | Some id_in \<Rightarrow>
             (case edata edge_out ''osm_id'' of
                 None \<Rightarrow> Inl KeyError
               | Some id_out \<Rightarrow>
                  if \<not> py_eq id_in id_out then Inr rn
                  else
             (case edata edge_in ''segment'' of
                 None \<Rightarrow> Inl KeyError
               | Some s \<Rightarrow>
                  if \<not> hashable id_in then Inl TypeError
                  else Inr (rn_append rn id_in (node_in, node, node_out, s)))))))
         else Inr rn)"

definition classify :: "graph \<Rightarrow> pyerr + remove_nodes" where
  "classify G = foldE (classify_node G) (node_ids G) []"

text \<open>
  Grouping by neighbouring segments. \<^verbatim>\<open>receiving_edge\<close> is a variable of the whole
  method: it is unbound before the first group opens and keeps its value from one way to
  the next, while \<^verbatim>\<open>groups\<close> and \<^verbatim>\<open>last_s\<close> start afresh for every way.
  \<^verbatim>\<open>sorted\<close> and \<^verbatim>\<open>s - last_s\<close> need numbers: anything else is a \<^verbatim>\<open>TypeError\<close>.
\<close>

type_synonym groups = "((int \<times> int) \<times> int list) list"

fun groups_set :: "groups \<Rightarrow> int \<times> int \<Rightarrow> int list \<Rightarrow> groups" where
  "groups_set [] k l = [(k, l)]"
| "groups_set ((k', l') # r) k l = (if k' = k then (k, l) # r else (k', l') # groups_set r k l)"

record grouping =
  g_groups :: groups
  g_receiving :: "(int \<times> int) option"
  g_last_s :: real

definition group_step :: "node_data \<Rightarrow> grouping \<Rightarrow> pyerr + grouping" where
  "group_step nd st =
     (case nd of (ni, n, no, s) \<Rightarrow>
        (case num_of s of
           None \<Rightarrow> Inl TypeError
         | Some sr \<Rightarrow>
            (let st1 = (if sr - g_last_s st \<noteq> 1
                        then st\<lparr>g_receiving := Some (ni, n),
                                g_groups := groups_set (g_groups st) (ni, n) []\<rparr>
                        else st)
             in case g_receiving st1 of
                  None \<Rightarrow> Inl UnboundLocalError
                | Some re \<Rightarrow>
                   (case map_of (g_groups st1) re of
                      None \<Rightarrow> Inl KeyError
                    | Some l \<Rightarrow>
                       Inr (st1\<lparr>g_groups := groups_set (g_groups st1) re (l @ [n]),
                                g_last_s := sr\<rparr>)))))"

definition segment_of :: "node_data \<Rightarrow> real" where
  "segment_of nd = (case nd of (ni, n, no, s) \<Rightarrow> the (num_of s))"

definition sorted_node_data :: "node_data list \<Rightarrow> pyerr + node_data list" where
  "sorted_node_data node_data =
     (if list_all (\<lambda>(ni, n, no, s). num_of s \<noteq> None) node_data
      then Inr (sort_key segment_of node_data)
      else Inl TypeError)"

text \<open>
  Removing the nodes of one group. \<^verbatim>\<open>edge_data\<close> is the dictionary of the edge
  \<open>(u, v, 0)\<close> and \<^verbatim>\<open>ndref\<close> the list it holds: \<^verbatim>\<open>ndref.append\<close> changes the list in
  place, so the edge shows the longer list for as long as it is in the graph. The edge
  added at the end receives a copy of the dictionary that holds the same list. The model
  keeps lists by value: it writes each append through to the edge \<open>(u, v, 0)\<close> and gives the
  new edge the final list. Within one call this is what the code does when no two edges
  share a list on entry, which holds for every graph of the builder: no later group appends
  to either edge, since a later group starts at a node that is in no earlier group.
\<close>

definition set_ndref :: "graph \<Rightarrow> int \<Rightarrow> int \<Rightarrow> int list \<Rightarrow> graph" where
  "set_ndref G u v l =
     G\<lparr>edges := update_first (is_edge u v (VInt 0))
                   (\<lambda>e. e\<lparr>edata := (edata e)(''ndref'' \<mapsto> VRefs l)\<rparr>) (edges G)\<rparr>"

definition remove_step ::
  "int \<Rightarrow> int \<Rightarrow> int \<Rightarrow> graph \<times> pyval \<Rightarrow> (graph \<times> pyval) \<times> pyerr option" where
  "remove_step u v node st =
     (case st of (G, ndref) \<Rightarrow>
        (case successors G node of
           [] \<Rightarrow> (st, Some StopIteration)
         | following_node # _ \<Rightarrow>
            (case ndref of
               VRefs l \<Rightarrow>
                 (let G1 = set_ndref G u v (l @ [following_node]);
                      ndref' = VRefs (l @ [following_node])
                  in case remove_edge G1 node following_node of
                       Inl err \<Rightarrow> ((G1, ndref'), Some err)
                     | Inr G' \<Rightarrow> ((G', ndref'), None))
             | _ \<Rightarrow> (st, Some AttributeError))))"

text \<open>
  After the inner loop \<^verbatim>\<open>node\<close> is the last node of the group. A group is never empty
  (a key enters \<^verbatim>\<open>groups\<close> just before a node is appended under it), so the first case
  below is never taken.
\<close>

definition remove_group :: "(int \<times> int) \<times> int list \<Rightarrow> graph \<Rightarrow> graph \<times> pyerr option" where
  "remove_group grp G =
     (case grp of ((u, v), group_nodes) \<Rightarrow>
        (case get_edge G u v (VInt 0) of
           Inl err \<Rightarrow> (G, Some err)
         | Inr edge_data \<Rightarrow>
            (case edata edge_data ''ndref'' of
               None \<Rightarrow> (G, Some KeyError)
             | Some ndref \<Rightarrow>
                (case foldS (remove_step u v) group_nodes (G, ndref) of
                   ((G', ndref'), Some err) \<Rightarrow> (G', Some err)
                 | ((G', ndref'), None) \<Rightarrow>
                    (if group_nodes = [] then (G', Some UnboundLocalError)
                     else (add_edges_from G' u (last group_nodes)
                             ((edata edge_data)(''ndref'' \<mapsto> ndref')), None))))))"

text \<open>The body of \<^verbatim>\<open>for way_id, node_data in remove_nodes.items()\<close>.\<close>

definition simplify_way ::
  "pyval \<times> node_data list \<Rightarrow> graph \<times> (int \<times> int) option \<Rightarrow>
     (graph \<times> (int \<times> int) option) \<times> pyerr option"
  where
  "simplify_way entry st =
     (case entry of (way_id, node_data) \<Rightarrow>
      case st of (G, receiving_edge) \<Rightarrow>
        (case sorted_node_data node_data of
           Inl err \<Rightarrow> (st, Some err)
         | Inr sorted_nd \<Rightarrow>
            (case foldE group_step sorted_nd
                    \<lparr>g_groups = [], g_receiving = receiving_edge, g_last_s = - 10\<rparr> of
               Inl err \<Rightarrow> (st, Some err)
             | Inr grouped \<Rightarrow>
                (case foldS remove_group (g_groups grouped) G of
                   (G', err) \<Rightarrow> ((G', g_receiving grouped), err)))))"

text \<open>
  The method changes \<^verbatim>\<open>self.G\<close> in place and returns nothing: the model returns the
  graph as the call leaves it, and the exception if one was raised.
\<close>

definition simplify :: "graph \<Rightarrow> graph \<times> pyerr option" where
  "simplify G =
     (case classify G of
        Inl err \<Rightarrow> (G, Some err)
      | Inr rn \<Rightarrow>
         (case foldS simplify_way rn (G, None) of
            ((G', receiving_edge), err) \<Rightarrow> (G', err)))"

section \<open>Geometry: \<^verbatim>\<open>OSMGraph.construct_geometries\<close>\<close>

text \<open>
  \<^verbatim>\<open>self.G._node[ref]\<close>, \<^verbatim>\<open>node_d["lon"]\<close> and \<^verbatim>\<open>node_d["lat"]\<close> are dictionary
  lookups: each raises \<^verbatim>\<open>KeyError\<close> when the key is missing.
\<close>

definition node_coords :: "graph \<Rightarrow> int \<Rightarrow> pyerr + pyval \<times> pyval" where
  "node_coords G r =
     (case map_of (nodes G) r of
        None \<Rightarrow> Inl KeyError
      | Some node_d \<Rightarrow>
         (case node_d ''lon'' of
            None \<Rightarrow> Inl KeyError
          | Some x \<Rightarrow>
             (case node_d ''lat'' of
                None \<Rightarrow> Inl KeyError
              | Some y \<Rightarrow> Inr (x, y))))"

text \<open>
  \<^verbatim>\<open>for ref in d["ndref"]\<close>: a list yields its references; a string would yield its
  characters, none of which is a node, so only the empty string passes the loop; the other
  values are not iterable.
\<close>

primrec iter_refs :: "pyval \<Rightarrow> pyerr + int list" where
  "iter_refs (VRefs l) = Inr l"
| "iter_refs (VStr s) = (if s = [] then Inr [] else Inl KeyError)"
| "iter_refs (VInt i) = Inl TypeError"
| "iter_refs (VFloat r) = Inl TypeError"
| "iter_refs (VLine c) = Inl TypeError"

text \<open>
  shapely's \<^verbatim>\<open>LineString(coords)\<close>: the coordinates must be numbers, and a line has no
  point or at least two; shapely raises for exactly one.
\<close>

definition LineString :: "(pyval \<times> pyval) list \<Rightarrow> pyerr + (real \<times> real) list" where
  "LineString coords =
     (if list_all (\<lambda>(x, y). num_of x \<noteq> None \<and> num_of y \<noteq> None) coords
      then (if length coords = 1 then Inl ShapelyError
            else Inr (map (\<lambda>(x, y). (the (num_of x), the (num_of y))) coords))
      else Inl TypeError)"

text \<open>
  The body of the loop over \<^verbatim>\<open>self.G.edges(data=True)\<close>, on the dictionary \<open>d\<close> of one
  edge. \<open>geometry_length\<close> stands for
  \<^verbatim>\<open>lambda g: round(self.geod.geometry_length(g), 1)\<close> of pyproj, a parameter.
\<close>

definition build_geometry ::
  "((real \<times> real) list \<Rightarrow> real) \<Rightarrow> graph \<Rightarrow> attrs \<Rightarrow> pyerr + attrs" where
  "build_geometry geometry_length G d =
     (case d ''ndref'' of
        None \<Rightarrow> Inl KeyError
      | Some ndref \<Rightarrow>
         (case iter_refs ndref of
            Inl err \<Rightarrow> Inl err
          | Inr refs \<Rightarrow>
             (case mapE (node_coords G) refs of
                Inl err \<Rightarrow> Inl err
              | Inr coords \<Rightarrow>
                 (case LineString coords of
                    Inl err \<Rightarrow> Inl err
                  | Inr geometry \<Rightarrow>
                     Inr ((d(''geometry'' \<mapsto> VLine geometry,
                             ''length'' \<mapsto> VFloat (geometry_length geometry)))
                          (''ndref'' := None))))))"

text \<open>The loop changes the dictionary of the edge it visits, in place.\<close>

definition set_edata :: "graph \<Rightarrow> edge \<Rightarrow> attrs \<Rightarrow> graph" where
  "set_edata G e d =
     G\<lparr>edges := update_first (is_edge (eu e) (ev e) (ekey e)) (\<lambda>e'. e'\<lparr>edata := d\<rparr>) (edges G)\<rparr>"

definition geometry_step ::
  "((real \<times> real) list \<Rightarrow> real) \<Rightarrow> edge \<Rightarrow> graph \<Rightarrow> graph \<times> pyerr option" where
  "geometry_step geometry_length e G =
     (case build_geometry geometry_length G (edata e) of
        Inl err \<Rightarrow> (G, Some err)
      | Inr d \<Rightarrow> (set_edata G e d, None))"

text \<open>The method changes the graph in place, like \<open>simplify\<close>.\<close>

definition construct_geometries ::
  "((real \<times> real) list \<Rightarrow> real) \<Rightarrow> graph \<Rightarrow> graph \<times> pyerr option" where
  "construct_geometries geometry_length G =
     foldS (geometry_step geometry_length) (edges_view G) G"

section \<open>Filtering: \<^verbatim>\<open>OSMGraph.filter_edges\<close>\<close>






section \<open>The exchange format: \<^verbatim>\<open>to_geojson\<close> and \<^verbatim>\<open>from_geojson\<close>\<close>









section \<open>Notions used in the statements\<close>

text \<open>The node references an edge holds under \<^verbatim>\<open>ndref\<close>.\<close>

definition chain_of :: "edge \<Rightarrow> int list" where
  "chain_of e = (case edata e ''ndref'' of Some (VRefs l) \<Rightarrow> l | _ \<Rightarrow> [])"

text \<open>
  Chains laid end to end: the first chain, then every later chain without its first
  reference, which is the last reference of the chain before it.
\<close>

fun join_chains :: "int list list \<Rightarrow> int list" where
  "join_chains [] = []"
| "join_chains (c # cs) = c @ concat (map tl cs)"

text \<open>
  What networkx keeps true of every graph: a node is registered once, and both ends of
  every edge are registered nodes.
\<close>

definition wf_graph :: "graph \<Rightarrow> bool" where
  "wf_graph G =
     (distinct (node_ids G) \<and>
      list_all (\<lambda>e. eu e \<in> set (node_ids G) \<and> ev e \<in> set (node_ids G)) (edges G))"

text \<open>The tuples collected by the first loop of \<open>simplify\<close>, and the nodes they select.\<close>

definition rn_entries :: "remove_nodes \<Rightarrow> node_data set" where
  "rn_entries rn = (\<Union>(k, l) \<in> set rn. set l)"

definition candidates :: "remove_nodes \<Rightarrow> int set" where
  "candidates rn = (\<lambda>(ni, n, no, s). n) ` rn_entries rn"

text \<open>
  A pass-through candidate as the code selects it: a registered node with exactly one
  predecessor node and exactly one successor node, such that the edges with key 0 from
  the one and to the other carry equal \<^verbatim>\<open>osm_id\<close> values.
\<close>

definition selected :: "graph \<Rightarrow> node_data \<Rightarrow> bool" where
  "selected G nd =
     (case nd of (ni, n, no, s) \<Rightarrow>
        n \<in> set (node_ids G) \<and> predecessors G n = [ni] \<and> successors G n = [no] \<and>
        (case get_edge G ni n (VInt 0) of
           Inl err \<Rightarrow> False
         | Inr edge_in \<Rightarrow>
            (case get_edge G n no (VInt 0) of
               Inl err \<Rightarrow> False
             | Inr edge_out \<Rightarrow>
                (case edata edge_in ''osm_id'' of
                   None \<Rightarrow> False
                 | Some a \<Rightarrow>
                    (case edata edge_out ''osm_id'' of
                       None \<Rightarrow> False
                     | Some b \<Rightarrow> py_eq a b \<and> edata edge_in ''segment'' = Some s)))))"

text \<open>Two edges that differ at most in their \<^verbatim>\<open>ndref\<close> list.\<close>

definition same_but_ndref :: "edge \<Rightarrow> edge \<Rightarrow> bool" where
  "same_but_ndref e e' =
     (eu e' = eu e \<and> ev e' = ev e \<and> ekey e' = ekey e \<and>
      (edata e')(''ndref'' := None) = (edata e)(''ndref'' := None))"

text \<open>
  What one call of \<open>simplify\<close> may do to a graph, given the set \<open>C\<close> of the nodes it
  selected: the node table stays, the ends of the edges stay registered, and an edge whose
  source is not in \<open>C\<close> stays in the graph, whatever happens to its \<^verbatim>\<open>ndref\<close> list.
\<close>

definition closed_edges :: "graph \<Rightarrow> bool" where
  "closed_edges G = list_all (\<lambda>e. eu e \<in> set (node_ids G) \<and> ev e \<in> set (node_ids G)) (edges G)"

definition keeps :: "int set \<Rightarrow> graph \<Rightarrow> graph \<Rightarrow> bool" where
  "keeps C G G' =
     (nodes G' = nodes G \<and> (closed_edges G \<longrightarrow> closed_edges G') \<and>
      (\<forall>e \<in> set (edges G). eu e \<notin> C \<longrightarrow> (\<exists>e' \<in> set (edges G'). same_but_ndref e e')))"

definition groups_ok :: "int set \<Rightarrow> int set \<Rightarrow> groups \<Rightarrow> bool" where
  "groups_ok N C g = (\<forall>((u, v), l) \<in> set g. u \<in> N \<and> set l \<subseteq> C)"

definition grouping_ok :: "int set \<Rightarrow> int set \<Rightarrow> grouping \<Rightarrow> bool" where
  "grouping_ok N C st =
     (groups_ok N C (g_groups st) \<and>
      (case g_receiving st of None \<Rightarrow> True | Some re \<Rightarrow> fst re \<in> N))"

definition entry_ok :: "int set \<Rightarrow> int set \<Rightarrow> node_data \<Rightarrow> bool" where
  "entry_ok N C nd = (case nd of (ni, n, no, s) \<Rightarrow> ni \<in> N \<and> n \<in> C)"

definition way_state_ok :: "int set \<Rightarrow> graph \<Rightarrow> graph \<times> (int \<times> int) option \<Rightarrow> bool" where
  "way_state_ok C G st =
     (keeps C G (fst st) \<and>
      (case snd st of None \<Rightarrow> True | Some re \<Rightarrow> fst re \<in> set (node_ids G)))"

text \<open>What the statements read off a result.\<close>

definition edge_chains :: "graph \<Rightarrow> (int \<times> int \<times> int list) list" where
  "edge_chains G = map (\<lambda>e. (eu e, ev e, chain_of e)) (edges_view G)"

definition all_refs :: "graph \<Rightarrow> int list" where
  "all_refs G = concat (map chain_of (edges_view G))"

definition geometry_of :: "edge \<Rightarrow> (real \<times> real) list" where
  "geometry_of e = (case edata e ''geometry'' of Some (VLine c) \<Rightarrow> c | _ \<Rightarrow> [])"

definition edge_geometries :: "graph \<Rightarrow> (int \<times> int \<times> (real \<times> real) list) list" where
  "edge_geometries G = map (\<lambda>e. (eu e, ev e, geometry_of e)) (edges_view G)"

definition registered_coords :: "graph \<Rightarrow> int \<Rightarrow> (pyval \<times> pyval) option" where
  "registered_coords G n =
     (case node_coords G n of Inl err \<Rightarrow> None | Inr c \<Rightarrow> Some c)"

definition in_edges :: "graph \<Rightarrow> int \<Rightarrow> edge list" where
  "in_edges G n = filter (\<lambda>e. ev e = n) (edges G)"

definition out_edges :: "graph \<Rightarrow> int \<Rightarrow> edge list" where
  "out_edges G n = filter (\<lambda>e. eu e = n) (edges G)"















subsection \<open>Example inputs\<close>

definition n100 :: way_node where "n100 = \<lparr>ref = 100, lon = 1, lat = 10\<rparr>"
definition n101 :: way_node where "n101 = \<lparr>ref = 101, lon = 2, lat = 20\<rparr>"
definition n102 :: way_node where "n102 = \<lparr>ref = 102, lon = 3, lat = 30\<rparr>"
definition n103 :: way_node where "n103 = \<lparr>ref = 103, lon = 4, lat = 40\<rparr>"

text \<open>The way of the specification's scenario, \<^verbatim>\<open>[100, 101, 102, 103]\<close>, and a way of one node.\<close>

definition way_a :: osm_way where
  "way_a = \<lparr>wid = 7, wtags = [], wnodes = [n100, n101, n102, n103]\<rparr>"

definition way_single :: osm_way where
  "way_single = \<lparr>wid = 9, wtags = [], wnodes = [n100]\<rparr>"

text \<open>
  Two ways that meet end to end at node 102, and a way that runs along the first segment
  of \<open>way_a\<close>.
\<close>

definition way_c :: osm_way where
  "way_c = \<lparr>wid = 7, wtags = [], wnodes = [n100, n101, n102]\<rparr>"

definition way_d :: osm_way where
  "way_d = \<lparr>wid = 8, wtags = [], wnodes = [n102, n103]\<rparr>"

definition way_b :: osm_way where
  "way_b = \<lparr>wid = 8, wtags = [], wnodes = [n100, n101]\<rparr>"

text \<open>
  A tag normaliser that returns no attribute, and a length function that returns 0: neither
  the tags nor the lengths play a part in the statements below.
\<close>

definition no_tags :: "(string \<times> string) list \<Rightarrow> attrs" where
  "no_tags t = Map.empty"

definition zero_length :: "(real \<times> real) list \<Rightarrow> real" where
  "zero_length c = 0"





section \<open>Facts about the graph operations\<close>

lemma key_loop_fresh: "\<not> key_in (key_loop ks k) ks"
  by (induction ks k rule: key_loop.induct) (subst key_loop.simps, simp)

lemma update_first_none: "\<not> list_ex P xs \<Longrightarrow> update_first P f xs = xs"
  by (induction xs) auto

lemma update_first_append_new:
  "\<not> list_ex P xs \<Longrightarrow> P x \<Longrightarrow> update_first P f (xs @ [x]) = xs @ [f x]"
  by (induction xs) auto

lemma new_edge_key_fresh: "\<not> list_ex (is_edge u v (new_edge_key G u v)) (edges G)"
proof
  assume "list_ex (is_edge u v (new_edge_key G u v)) (edges G)"
  then obtain e where e: "e \<in> set (edges G)" "is_edge u v (new_edge_key G u v) e"
    by (auto simp: list_ex_iff)
  let ?ks = "map ekey (pair_edges G u v)"
  from e have "ekey e \<in> set ?ks"
    by (auto simp: pair_edges_def is_edge_def)
  moreover from e(2) have "py_eq (ekey e) (VInt (int (key_loop ?ks (length ?ks))))"
    by (simp add: is_edge_def new_edge_key_def Let_def)
  ultimately have "key_in (key_loop ?ks (length ?ks)) ?ks"
    unfolding key_in_def list_ex_iff by blast
  then show False by (simp add: key_loop_fresh)
qed

lemma py_eq_refl: "py_eq a a"
  by (cases a) (simp_all add: py_eq_def)

lemma add_edges_from_eq:
  "add_edges_from G u v dd =
     (let G1 = ensure_node (ensure_node G u) v
      in G1\<lparr>edges := edges G1 @ [\<lparr>eu = u, ev = v, ekey = new_edge_key G1 u v, edata = dd\<rparr>]\<rparr>)"
  by (simp add: add_edges_from_def add_edge_def Let_def new_edge_key_fresh
      update_first_append_new is_edge_def py_eq_refl)

lemma edges_ensure_node [simp]: "edges (ensure_node G n) = edges G"
  by (simp add: ensure_node_def)

lemma edges_add_node [simp]: "edges (add_node G n a) = edges G"
  by (simp add: add_node_def)

lemma edges_add_edges_from:
  "\<exists>k. edges (add_edges_from G u v dd) = edges G @ [\<lparr>eu = u, ev = v, ekey = k, edata = dd\<rparr>]"
  by (simp add: add_edges_from_eq Let_def)

lemma edges_way_segment:
  "\<exists>k. edges (way_segment d2 ns i G) =
       edges G @ [\<lparr>eu = ref (ns ! i), ev = ref (ns ! (i + 1)), ekey = k,
                   edata = d2(''segment'' \<mapsto> VInt (int i),
                              ''ndref'' \<mapsto> VRefs [ref (ns ! i), ref (ns ! (i + 1))])\<rparr>]"
  using edges_add_edges_from [of G "ref (ns ! i)" "ref (ns ! (i + 1))"]
  by (simp add: way_segment_def Let_def)

lemma edges_fold_way_segment:
  "\<exists>new. edges (fold (way_segment d2 ns) [0..<n] G) = edges G @ new \<and> length new = n \<and>
     (\<forall>i<n. eu (new ! i) = ref (ns ! i) \<and> ev (new ! i) = ref (ns ! (i + 1)) \<and>
        edata (new ! i) = d2(''segment'' \<mapsto> VInt (int i),
                             ''ndref'' \<mapsto> VRefs [ref (ns ! i), ref (ns ! (i + 1))]))"
proof (induction n)
  case 0
  then show ?case by simp
next
  case (Suc n)
  then obtain new where new: "edges (fold (way_segment d2 ns) [0..<n] G) = edges G @ new"
    "length new = n"
    "\<forall>i<n. eu (new ! i) = ref (ns ! i) \<and> ev (new ! i) = ref (ns ! (i + 1)) \<and>
        edata (new ! i) = d2(''segment'' \<mapsto> VInt (int i),
                             ''ndref'' \<mapsto> VRefs [ref (ns ! i), ref (ns ! (i + 1))])"
    by blast
  obtain k where k: "edges (way_segment d2 ns n (fold (way_segment d2 ns) [0..<n] G)) =
       edges (fold (way_segment d2 ns) [0..<n] G) @
        [\<lparr>eu = ref (ns ! n), ev = ref (ns ! (n + 1)), ekey = k,
          edata = d2(''segment'' \<mapsto> VInt (int n),
                     ''ndref'' \<mapsto> VRefs [ref (ns ! n), ref (ns ! (n + 1))])\<rparr>]"
    using edges_way_segment by blast
  let ?e = "\<lparr>eu = ref (ns ! n), ev = ref (ns ! (n + 1)), ekey = k,
          edata = d2(''segment'' \<mapsto> VInt (int n),
                     ''ndref'' \<mapsto> VRefs [ref (ns ! n), ref (ns ! (n + 1))])\<rparr>"
  have "edges (fold (way_segment d2 ns) [0..<Suc n] G) = edges G @ (new @ [?e])"
    using new(1) k by simp
  moreover have "length (new @ [?e]) = Suc n"
    using new(2) by simp
  moreover have "\<forall>i<Suc n. eu ((new @ [?e]) ! i) = ref (ns ! i) \<and>
        ev ((new @ [?e]) ! i) = ref (ns ! (i + 1)) \<and>
        edata ((new @ [?e]) ! i) = d2(''segment'' \<mapsto> VInt (int i),
                             ''ndref'' \<mapsto> VRefs [ref (ns ! i), ref (ns ! (i + 1))])"
    using new(2,3) by (auto simp: nth_append less_Suc_eq)
  ultimately show ?case by blast
qed

lemma join_chains_pairs:
  "join_chains (map (\<lambda>i. [r i, r (Suc i)]) [0..<Suc m]) = map r [0..<Suc (Suc m)]"
proof -
  have "concat (map tl (map (\<lambda>i. [r i, r (Suc i)]) [a..<b])) = map r [Suc a..<Suc b]" for a b
    by (induction b) auto
  from this [of 1 "Suc m"] show ?thesis
    by (simp add: upt_rec [of 0] upt_rec [of "Suc 0"] del: upt_Suc)
qed



section \<open>The builder\<close>

text \<open>
  Claim C3. For an accepted way with the node sequence \<open>[n\<^sub>0, \<dots>, n\<^sub>k]\<close> the handler
  appends exactly \<open>k\<close> edges to the graph. Edge \<open>i\<close> runs from \<open>n\<^sub>i\<close> to \<open>n\<^sub>i\<^sub>+\<^sub>1\<close>, its
  \<^verbatim>\<open>segment\<close> is \<open>i\<close> and its \<^verbatim>\<open>ndref\<close> is \<open>[ref n\<^sub>i, ref n\<^sub>i\<^sub>+\<^sub>1]\<close>. When the way has an
  edge at all (two nodes or more), the chains of the new edges laid end to end in segment
  order are the node sequence of the way.
\<close>

theorem builder_segment_coverage:
  assumes "accepts flt (wtags w)"
  shows "\<exists>new. edges (OSMParser_way flt normalizer G w) = edges G @ new \<and>
           length new = length (wnodes w) - 1 \<and>
           (\<forall>i < length (wnodes w) - 1.
              eu (new ! i) = ref (wnodes w ! i) \<and>
              ev (new ! i) = ref (wnodes w ! (i + 1)) \<and>
              edata (new ! i) ''segment'' = Some (VInt (int i)) \<and>
              edata (new ! i) ''ndref'' =
                Some (VRefs [ref (wnodes w ! i), ref (wnodes w ! (i + 1))])) \<and>
           (2 \<le> length (wnodes w) \<longrightarrow>
              join_chains (map chain_of new) = map ref (wnodes w))"
proof -
  let ?ns = "wnodes w"
  let ?n = "length ?ns - 1"
  let ?d2 = "[''osm_id'' \<mapsto> VInt (wid w)] ++ normalizer (wtags w)"
  have n: "nat (int (length ?ns) - 1) = ?n"
    by simp
  obtain new where new: "edges (fold (way_segment ?d2 ?ns) [0..<?n] G) = edges G @ new"
    "length new = ?n"
    "\<forall>i<?n. eu (new ! i) = ref (?ns ! i) \<and> ev (new ! i) = ref (?ns ! (i + 1)) \<and>
        edata (new ! i) = ?d2(''segment'' \<mapsto> VInt (int i),
                             ''ndref'' \<mapsto> VRefs [ref (?ns ! i), ref (?ns ! (i + 1))])"
    using edges_fold_way_segment [of ?d2 ?ns ?n G] by blast
  have 1: "edges (OSMParser_way flt normalizer G w) = edges G @ new"
    using assms new(1) by (simp add: OSMParser_way_def Let_def n del: of_nat_diff)
  have 3: "\<forall>i < ?n.
              eu (new ! i) = ref (?ns ! i) \<and>
              ev (new ! i) = ref (?ns ! (i + 1)) \<and>
              edata (new ! i) ''segment'' = Some (VInt (int i)) \<and>
              edata (new ! i) ''ndref'' = Some (VRefs [ref (?ns ! i), ref (?ns ! (i + 1))])"
    using new(3) by simp
  have 4: "join_chains (map chain_of new) = map ref ?ns" if len: "2 \<le> length ?ns"
  proof -
    obtain m where m: "?n = Suc m"
      using len by (cases ?n) auto
    have "map chain_of new = map (\<lambda>i. [ref (?ns ! i), ref (?ns ! Suc i)]) [0..<?n]"
      using new(2) 3 by (intro nth_equalityI) (auto simp: chain_of_def)
    then have "join_chains (map chain_of new) = map (\<lambda>i. ref (?ns ! i)) [0..<Suc (Suc m)]"
      using join_chains_pairs [of "\<lambda>i. ref (?ns ! i)" m] m by simp
    also have "\<dots> = map ref (map (\<lambda>i. ?ns ! i) [0..<length ?ns])"
    proof -
      have "Suc (Suc m) = length ?ns"
        using m len by simp
      then show ?thesis
        by (simp only: map_map comp_def)
    qed
    also have "\<dots> = map ref ?ns"
      by (simp only: map_nth)
    finally show ?thesis .
  qed
  from 1 new(2) 3 4 show ?thesis by blast
qed

theorem builder_segment_coverage_witness:
  "accepts None (wtags way_a) \<and>
   (\<exists>new. edges (OSMParser_way None no_tags empty_graph way_a) = new \<and>
      length new = 3 \<and>
      map eu new = [100, 101, 102] \<and> map ev new = [101, 102, 103] \<and>
      map (\<lambda>e. edata e ''segment'') new = [Some (VInt 0), Some (VInt 1), Some (VInt 2)] \<and>
      map chain_of new = [[100, 101], [101, 102], [102, 103]] \<and>
      join_chains (map chain_of new) = [100, 101, 102, 103])"
proof -
  have acc: "accepts None (wtags way_a)"
    by (simp add: accepts_def)
  from builder_segment_coverage [OF acc, of no_tags empty_graph]
  obtain new where new: "edges (OSMParser_way None no_tags empty_graph way_a) = new"
    "length new = 3"
    "\<forall>i<3. eu (new ! i) = ref (wnodes way_a ! i) \<and>
              ev (new ! i) = ref (wnodes way_a ! (i + 1)) \<and>
              edata (new ! i) ''segment'' = Some (VInt (int i)) \<and>
              edata (new ! i) ''ndref'' =
                Some (VRefs [ref (wnodes way_a ! i), ref (wnodes way_a ! (i + 1))])"
    "join_chains (map chain_of new) = map ref (wnodes way_a)"
    by (auto simp: way_a_def empty_graph_def)
  from new(2) obtain a b c where abc: "new = [a, b, c]"
    by (auto simp: length_Suc_conv numeral_3_eq_3)
  from new(3) have "\<forall>i \<in> {0, 1, 2}. eu (new ! i) = ref (wnodes way_a ! i) \<and>
              ev (new ! i) = ref (wnodes way_a ! (i + 1)) \<and>
              edata (new ! i) ''segment'' = Some (VInt (int i)) \<and>
              edata (new ! i) ''ndref'' =
                Some (VRefs [ref (wnodes way_a ! i), ref (wnodes way_a ! (i + 1))])"
    by simp
  with abc new(4) have "map eu new = [100, 101, 102] \<and> map ev new = [101, 102, 103] \<and>
      map (\<lambda>e. edata e ''segment'') new = [Some (VInt 0), Some (VInt 1), Some (VInt 2)] \<and>
      map chain_of new = [[100, 101], [101, 102], [102, 103]] \<and>
      join_chains (map chain_of new) = [100, 101, 102, 103]"
    by (simp add: way_a_def n100_def n101_def n102_def n103_def chain_of_def)
  with acc new(1,2) show ?thesis by simp
qed

text \<open>
  Claim C10. A way with fewer than two node references leaves the graph as it was: the
  loop runs \<open>len(w.nodes) - 1\<close> times, which is never, so no edge is added and no node is
  registered.
\<close>

theorem short_way_no_effect:
  "length (wnodes w) < 2 \<Longrightarrow> OSMParser_way flt normalizer G w = G"
  by (simp add: OSMParser_way_def Let_def)

theorem short_way_no_effect_witness:
  "length (wnodes way_single) < 2 \<and> accepts None (wtags way_single) \<and>
   OSMParser_way None no_tags (from_pbf [way_a] None no_tags) way_single =
     from_pbf [way_a] None no_tags"
proof -
  have len: "length (wnodes way_single) < 2"
    by (simp add: way_single_def)
  from short_way_no_effect [OF len] len show ?thesis
    by (simp add: accepts_def)
qed



section \<open>What one call of the simplifier keeps\<close>

lemma foldE_invariant:
  assumes "foldE f xs s = Inr s'" and "I s"
    and "\<And>x s s'. x \<in> set xs \<Longrightarrow> I s \<Longrightarrow> f x s = Inr s' \<Longrightarrow> I s'"
  shows "I s'"
  using assms
proof (induction xs arbitrary: s)
  case Nil
  then show ?case by simp
next
  case (Cons x xs)
  from Cons.prems(1) obtain s1 where s1: "f x s = Inr s1" "foldE f xs s1 = Inr s'"
    by (auto split: sum.splits)
  have "x \<in> set (x # xs)"
    by simp
  then have "I s1"
    using Cons.prems(2) s1(1) by (rule Cons.prems(3))
  moreover have "I t'" if "y \<in> set xs" "I t" "f y t = Inr t'" for y t t'
  proof -
    from that(1) have "y \<in> set (x # xs)"
      by simp
    then show ?thesis
      using that(2,3) by (rule Cons.prems(3))
  qed
  ultimately show ?case
    using s1(2) by (intro Cons.IH [of s1])
qed

lemma foldS_invariant:
  assumes "I s" and "\<And>x s. x \<in> set xs \<Longrightarrow> I s \<Longrightarrow> I (fst (f x s))"
  shows "I (fst (foldS f xs s))"
  using assms
proof (induction xs arbitrary: s)
  case Nil
  then show ?case by simp
next
  case (Cons x xs)
  have "x \<in> set (x # xs)"
    by simp
  then have 1: "I (fst (f x s))"
    using Cons.prems(1) by (rule Cons.prems(2))
  have 2: "I (fst (f y t))" if "y \<in> set xs" "I t" for y t
  proof -
    from that(1) have "y \<in> set (x # xs)"
      by simp
    then show ?thesis
      using that(2) by (rule Cons.prems(2))
  qed
  show ?case
  proof (cases "f x s")
    case (Pair s1 err)
    show ?thesis
    proof (cases err)
      case None
      with Pair 1 have "I s1"
        by simp
      then have "I (fst (foldS f xs s1))"
        using 2 by (rule Cons.IH)
      with Pair None show ?thesis
        by simp
    next
      case (Some e)
      with Pair 1 show ?thesis
        by simp
    qed
  qed
qed

lemma set_uniq [simp]: "set (uniq xs) = set xs"
  by (induction xs rule: uniq.induct) auto

lemma distinct_uniq [simp]: "distinct (uniq xs)"
  by (induction xs rule: uniq.induct) auto

lemma rn_entries_Nil [simp]: "rn_entries [] = {}"
  by (simp add: rn_entries_def)

lemma rn_entries_append [simp]: "rn_entries (rn_append rn k nd) = insert nd (rn_entries rn)"
  by (induction rn k nd rule: rn_append.induct) (auto simp: rn_entries_def)

lemma classify_node_selected:
  assumes "classify_node G node rn = Inr rn'" and "node \<in> set (node_ids G)"
    and "\<forall>nd \<in> rn_entries rn. selected G nd"
  shows "\<forall>nd \<in> rn_entries rn'. selected G nd"
proof (cases "length (predecessors G node) = 1 \<and> length (successors G node) = 1")
  case False
  with assms show ?thesis
    by (auto simp: classify_node_def Let_def)
next
  case True
  then obtain ni no where pn: "predecessors G node = [ni]" "successors G node = [no]"
    by (auto simp: length_Suc_conv)
  from assms(1) pn have "rn' = rn \<or>
    (\<exists>s. rn' = rn_append rn (the (edata (projr (get_edge G ni node (VInt 0))) ''osm_id''))
             (ni, node, no, s) \<and> selected G (ni, node, no, s))"
    using assms(2)
    by (auto simp: classify_node_def Let_def selected_def split: sum.splits option.splits if_splits)
  with assms(3) show ?thesis
    by auto
qed

lemma classify_selected:
  assumes "classify G = Inr rn"
  shows "\<forall>nd \<in> rn_entries rn. selected G nd"
proof -
  have "foldE (classify_node G) (node_ids G) [] = Inr rn"
    using assms by (simp add: classify_def)
  then show ?thesis
    by (rule foldE_invariant [where I = "\<lambda>rn. \<forall>nd \<in> rn_entries rn. selected G nd"])
       (auto dest: classify_node_selected)
qed

lemma same_but_ndref_refl [simp]: "same_but_ndref e e"
  by (simp add: same_but_ndref_def)

lemma same_but_ndref_trans:
  "same_but_ndref a b \<Longrightarrow> same_but_ndref b c \<Longrightarrow> same_but_ndref a c"
  by (simp add: same_but_ndref_def)

lemma same_but_ndref_self: "e \<in> A \<Longrightarrow> \<exists>e' \<in> A. same_but_ndref e e'"
  by (rule bexI [of _ e]) simp_all

lemma keeps_refl [simp]: "keeps C G G"
  by (simp add: keeps_def same_but_ndref_self)

lemma keeps_trans:
  assumes "keeps C G G1" and "keeps C G1 G2"
  shows "keeps C G G2"
proof -
  have "\<exists>e2 \<in> set (edges G2). same_but_ndref e e2" if e: "e \<in> set (edges G)" "eu e \<notin> C" for e
  proof -
    from assms(1) e obtain e1 where e1: "e1 \<in> set (edges G1)" "same_but_ndref e e1"
      by (auto simp: keeps_def)
    then have "eu e1 \<notin> C"
      using e(2) by (simp add: same_but_ndref_def)
    with assms(2) e1(1) obtain e2 where "e2 \<in> set (edges G2)" "same_but_ndref e1 e2"
      by (auto simp: keeps_def)
    with e1(2) show ?thesis
      by (blast intro: same_but_ndref_trans)
  qed
  with assms show ?thesis
    by (simp add: keeps_def)
qed

lemma update_first_cases:
  "e' \<in> set (update_first P f xs) \<Longrightarrow> e' \<in> set xs \<or> (\<exists>e \<in> set xs. e' = f e)"
  by (induction xs) (auto split: if_splits)

lemma update_first_image:
  "e \<in> set xs \<Longrightarrow> e \<in> set (update_first P f xs) \<or> f e \<in> set (update_first P f xs)"
  by (induction xs) auto

lemma node_ids_cong: "nodes G' = nodes G \<Longrightarrow> node_ids G' = node_ids G"
  by (simp add: node_ids_def)

lemma keeps_set_ndref: "keeps C G (set_ndref G u v l)"
proof -
  let ?f = "\<lambda>e. e\<lparr>edata := (edata e)(''ndref'' \<mapsto> VRefs l)\<rparr>"
  have f: "same_but_ndref e (?f e)" "eu (?f e) = eu e" "ev (?f e) = ev e" for e
    by (simp_all add: same_but_ndref_def)
  have 1: "nodes (set_ndref G u v l) = nodes G"
    by (simp add: set_ndref_def)
  have 2: "closed_edges (set_ndref G u v l)" if "closed_edges G"
    using that update_first_cases [of _ "is_edge u v (VInt 0)" ?f "edges G"]
    by (fastforce simp: closed_edges_def list_all_iff set_ndref_def node_ids_def)
  have 3: "\<exists>e' \<in> set (edges (set_ndref G u v l)). same_but_ndref e e'"
    if "e \<in> set (edges G)" for e
  proof -
    from update_first_image [OF that, of "is_edge u v (VInt 0)" ?f]
    have "e \<in> set (edges (set_ndref G u v l)) \<or> ?f e \<in> set (edges (set_ndref G u v l))"
      by (simp add: set_ndref_def)
    then show ?thesis
      using f(1) [of e] by (blast intro: same_but_ndref_self)
  qed
  from 1 2 3 show ?thesis
    by (simp add: keeps_def)
qed

lemma set_remove_first: "set (remove_first P xs) \<subseteq> set xs"
  by (induction xs) auto

lemma remove_first_keeps: "x \<in> set xs \<Longrightarrow> \<not> P x \<Longrightarrow> x \<in> set (remove_first P xs)"
  by (induction xs) auto

lemma set_remove_last: "set (remove_last P xs) \<subseteq> set xs"
  using set_remove_first [of P "rev xs"] by (simp add: remove_last_def)

lemma remove_last_keeps: "x \<in> set xs \<Longrightarrow> \<not> P x \<Longrightarrow> x \<in> set (remove_last P xs)"
  using remove_first_keeps [of x "rev xs" P] by (simp add: remove_last_def)

lemma keeps_remove_edge:
  assumes "remove_edge G node f = Inr G'" and "node \<in> C"
  shows "keeps C G G'"
proof -
  from assms(1) have G': "G' = G\<lparr>edges := remove_last (\<lambda>e. eu e = node \<and> ev e = f) (edges G)\<rparr>"
    by (simp add: remove_edge_def split: if_splits)
  have "closed_edges G'" if "closed_edges G"
    using that set_remove_last [of "\<lambda>e. eu e = node \<and> ev e = f" "edges G"]
    by (auto simp: closed_edges_def list_all_iff G' node_ids_def)
  moreover have "\<exists>e' \<in> set (edges G'). same_but_ndref e e'"
    if "e \<in> set (edges G)" "eu e \<notin> C" for e
  proof -
    from that assms(2) have "e \<in> set (edges G')"
      by (auto simp: G' intro: remove_last_keeps)
    then show ?thesis
      by (rule same_but_ndref_self)
  qed
  ultimately show ?thesis
    by (simp add: keeps_def G')
qed

lemma ensure_node_present: "n \<in> set (node_ids G) \<Longrightarrow> ensure_node G n = G"
  by (simp add: ensure_node_def has_node_def)

lemma keeps_add_edges_from:
  assumes "u \<in> set (node_ids G)" and "v \<in> set (node_ids G)"
  shows "keeps C G (add_edges_from G u v dd)"
proof -
  let ?G' = "add_edges_from G u v dd"
  have G': "?G' = G\<lparr>edges := edges G @ [\<lparr>eu = u, ev = v, ekey = new_edge_key G u v, edata = dd\<rparr>]\<rparr>"
    using assms by (simp add: add_edges_from_eq Let_def ensure_node_present)
  have "closed_edges ?G'" if "closed_edges G"
    using that assms by (simp add: G' closed_edges_def node_ids_def)
  moreover have "\<exists>e' \<in> set (edges ?G'). same_but_ndref e e'" if "e \<in> set (edges G)" for e
  proof -
    from that have "e \<in> set (edges ?G')"
      by (simp add: G')
    then show ?thesis
      by (rule same_but_ndref_self)
  qed
  moreover have "nodes ?G' = nodes G"
    by (simp add: G')
  ultimately show ?thesis
    by (simp add: keeps_def)
qed

lemma keeps_remove_step:
  assumes "node \<in> C"
  shows "keeps C G (fst (fst (remove_step u v node (G, nd))))"
proof (cases "successors G node")
  case Nil
  then show ?thesis
    by (simp add: remove_step_def)
next
  case (Cons f fs)
  show ?thesis
  proof (cases nd)
    case (VRefs l)
    let ?G1 = "set_ndref G u v (l @ [f])"
    have k1: "keeps C G ?G1"
      by (rule keeps_set_ndref)
    show ?thesis
    proof (cases "remove_edge ?G1 node f")
      case (Inl err)
      with Cons VRefs k1 show ?thesis
        by (simp add: remove_step_def Let_def)
    next
      case (Inr G')
      then have "keeps C ?G1 G'"
        using assms by (rule keeps_remove_edge)
      with k1 have "keeps C G G'"
        by (rule keeps_trans)
      with Cons VRefs Inr show ?thesis
        by (simp add: remove_step_def Let_def)
    qed
  qed (simp_all add: remove_step_def Cons)
qed

lemma keeps_remove_steps:
  assumes "set ns \<subseteq> C"
  shows "keeps C G (fst (fst (foldS (remove_step u v) ns (G, nd))))"
proof (rule foldS_invariant [where I = "\<lambda>st. keeps C G (fst st)"])
  show "keeps C G (fst (G, nd))"
    by simp
next
  fix x and s :: "graph \<times> pyval"
  assume x: "x \<in> set ns" and s: "keeps C G (fst s)"
  obtain G1 nd1 where s1: "s = (G1, nd1)"
    by (cases s)
  from x assms have "keeps C G1 (fst (fst (remove_step u v x (G1, nd1))))"
    by (intro keeps_remove_step) auto
  with s s1 show "keeps C G (fst (fst (remove_step u v x s)))"
    by (auto intro: keeps_trans)
qed

lemma keeps_remove_group:
  assumes "set ns \<subseteq> C" and "u \<in> set (node_ids G)" and "C \<subseteq> set (node_ids G)"
  shows "keeps C G (fst (remove_group ((u, v), ns) G))"
proof (cases "get_edge G u v (VInt 0)")
  case (Inl err)
  then show ?thesis
    by (simp add: remove_group_def)
next
  case (Inr edge_data)
  show ?thesis
  proof (cases "edata edge_data ''ndref''")
    case None
    with Inr show ?thesis
      by (simp add: remove_group_def)
  next
    case (Some nd0)
    obtain G1 nd1 err where loop: "foldS (remove_step u v) ns (G, nd0) = ((G1, nd1), err)"
      by (metis prod.exhaust)
    have k1: "keeps C G G1"
      using keeps_remove_steps [OF assms(1), of G u v nd0] loop by simp
    then have n1: "node_ids G1 = node_ids G"
      by (simp add: keeps_def node_ids_def)
    show ?thesis
    proof (cases "err = None \<and> ns \<noteq> []")
      case False
      with Inr Some loop k1 show ?thesis
        by (auto simp: remove_group_def split: option.splits)
    next
      case True
      then have "last ns \<in> set ns"
        by simp
      with assms(1,3) have "last ns \<in> set (node_ids G1)"
        using n1 by auto
      with assms(2) n1 have "keeps C G1
          (add_edges_from G1 u (last ns) ((edata edge_data)(''ndref'' \<mapsto> nd1)))"
        by (intro keeps_add_edges_from) simp_all
      with k1 have "keeps C G
          (add_edges_from G1 u (last ns) ((edata edge_data)(''ndref'' \<mapsto> nd1)))"
        by (rule keeps_trans)
      with Inr Some loop True show ?thesis
        by (simp add: remove_group_def)
    qed
  qed
qed

lemma set_groups_set: "set (groups_set g k l) \<subseteq> insert (k, l) (set g)"
  by (induction g k l rule: groups_set.induct) auto

lemma groups_ok_set:
  "groups_ok N C g \<Longrightarrow> fst k \<in> N \<Longrightarrow> set l \<subseteq> C \<Longrightarrow> groups_ok N C (groups_set g k l)"
  using set_groups_set [of g k l] by (cases k) (fastforce simp: groups_ok_def)

lemma groups_ok_lookup:
  "groups_ok N C g \<Longrightarrow> map_of g k = Some l \<Longrightarrow> fst k \<in> N \<and> set l \<subseteq> C"
  by (cases k) (auto simp: groups_ok_def dest!: map_of_SomeD)

lemma group_step_ok:
  assumes "group_step (ni, n, no, s) st = Inr st'" and "grouping_ok N C st"
    and "ni \<in> N" and "n \<in> C"
  shows "grouping_ok N C st'"
proof -
  from assms(1) obtain sr where sr: "num_of s = Some sr"
    by (auto simp: group_step_def split: option.splits)
  define st1 where "st1 = (if sr - g_last_s st \<noteq> 1
                        then st\<lparr>g_receiving := Some (ni, n),
                                g_groups := groups_set (g_groups st) (ni, n) []\<rparr>
                        else st)"
  have ok1: "grouping_ok N C st1"
    using assms(2,3) by (auto simp: st1_def grouping_ok_def intro: groups_ok_set)
  from assms(1) sr obtain re l where re: "g_receiving st1 = Some re"
    "map_of (g_groups st1) re = Some l"
    "st' = st1\<lparr>g_groups := groups_set (g_groups st1) re (l @ [n]), g_last_s := sr\<rparr>"
    by (auto simp: group_step_def Let_def st1_def [symmetric] split: option.splits)
  from ok1 re(2) have "fst re \<in> N" "set l \<subseteq> C"
    by (auto simp: grouping_ok_def dest: groups_ok_lookup)
  then have "groups_ok N C (groups_set (g_groups st1) re (l @ [n]))"
    using ok1 assms(4) by (intro groups_ok_set) (simp_all add: grouping_ok_def)
  with ok1 re(1) \<open>fst re \<in> N\<close> show ?thesis
    by (simp add: re(3) grouping_ok_def)
qed

lemma keeps_node_ids: "keeps C G G' \<Longrightarrow> node_ids G' = node_ids G"
  by (simp add: keeps_def node_ids_def)

lemma keeps_remove_groups:
  assumes "groups_ok (set (node_ids G)) C gs" and "C \<subseteq> set (node_ids G)"
  shows "keeps C G (fst (foldS remove_group gs G))"
proof (rule foldS_invariant [where I = "keeps C G"])
  show "keeps C G G" by simp
next
  fix x s
  assume x: "x \<in> set gs" and s: "keeps C G s"
  obtain u v ns where xx: "x = ((u, v), ns)"
    by (cases x) auto
  from x xx assms(1) have "u \<in> set (node_ids G)" "set ns \<subseteq> C"
    by (auto simp: groups_ok_def)
  with assms(2) keeps_node_ids [OF s] have "keeps C s (fst (remove_group ((u, v), ns) s))"
    by (intro keeps_remove_group) simp_all
  with s xx show "keeps C G (fst (remove_group x s))"
    by (auto intro: keeps_trans)
qed

lemma grouping_ok_steps:
  assumes "foldE group_step nds st = Inr st'" and "grouping_ok N C st"
    and "\<forall>nd \<in> set nds. entry_ok N C nd"
  shows "grouping_ok N C st'"
  using assms(1,2)
proof (rule foldE_invariant [where I = "grouping_ok N C"])
  fix x s s'
  assume x: "x \<in> set nds" and s: "grouping_ok N C s" and step: "group_step x s = Inr s'"
  obtain ni n no sg where xx: "x = (ni, n, no, sg)"
    by (cases x) auto
  with x assms(3) have "ni \<in> N" "n \<in> C"
    by (auto simp: entry_ok_def)
  with step s xx show "grouping_ok N C s'"
    by (auto intro: group_step_ok)
qed

lemma sorted_node_data_set: "sorted_node_data nds = Inr snds \<Longrightarrow> set snds = set nds"
  by (auto simp: sorted_node_data_def split: if_splits)

lemma simplify_way_ok:
  assumes "way_state_ok C G st"
    and "\<forall>nd \<in> set nds. entry_ok (set (node_ids G)) C nd" and "C \<subseteq> set (node_ids G)"
  shows "way_state_ok C G (fst (simplify_way (k, nds) st))"
proof -
  obtain Gc rec where st: "st = (Gc, rec)"
    by (cases st)
  let ?N = "set (node_ids G)"
  from assms(1) st have kc: "keeps C G Gc"
    and rec: "case rec of None \<Rightarrow> True | Some re \<Rightarrow> fst re \<in> ?N"
    by (simp_all add: way_state_ok_def)
  show ?thesis
  proof (cases "sorted_node_data nds")
    case (Inl err)
    with st assms(1) show ?thesis
      by (simp add: simplify_way_def)
  next
    case (Inr snds)
    show ?thesis
    proof (cases "foldE group_step snds \<lparr>g_groups = [], g_receiving = rec, g_last_s = - 10\<rparr>")
      case (Inl err)
      with st assms(1) \<open>sorted_node_data nds = Inr snds\<close> show ?thesis
        by (simp add: simplify_way_def)
    next
      case grouped: (Inr grouped)
      have init: "grouping_ok ?N C \<lparr>g_groups = [], g_receiving = rec, g_last_s = - 10\<rparr>"
        using rec by (simp add: grouping_ok_def groups_ok_def)
      have "set snds = set nds"
        using Inr by (rule sorted_node_data_set)
      with assms(2) have "\<forall>nd \<in> set snds. entry_ok ?N C nd"
        by simp
      with grouped init have gok: "grouping_ok ?N C grouped"
        by (rule grouping_ok_steps)
      have ids: "node_ids Gc = node_ids G"
        using kc by (rule keeps_node_ids)
      have "groups_ok (set (node_ids Gc)) C (g_groups grouped)"
        using gok ids by (simp add: grouping_ok_def)
      moreover have "C \<subseteq> set (node_ids Gc)"
        using assms(3) ids by simp
      ultimately have "keeps C Gc (fst (foldS remove_group (g_groups grouped) Gc))"
        by (rule keeps_remove_groups)
      with kc have "keeps C G (fst (foldS remove_group (g_groups grouped) Gc))"
        by (rule keeps_trans)
      with gok st Inr grouped show ?thesis
        by (simp add: simplify_way_def way_state_ok_def grouping_ok_def case_prod_beta)
    qed
  qed
qed

lemma selected_entry_ok:
  assumes "wf_graph G" and "selected G nd" and "nd \<in> rn_entries rn"
  shows "entry_ok (set (node_ids G)) (candidates rn) nd"
proof -
  obtain ni n no s where nd: "nd = (ni, n, no, s)"
    by (cases nd) auto
  from assms(2) nd have "ni \<in> set (predecessors G n)"
    by (simp add: selected_def)
  then obtain e where "e \<in> set (edges G)" "eu e = ni"
    by (auto simp: predecessors_def)
  with assms(1) have "ni \<in> set (node_ids G)"
    by (auto simp: wf_graph_def list_all_iff)
  moreover from assms(3) nd have "n \<in> candidates rn"
    by (force simp: candidates_def)
  ultimately show ?thesis
    by (simp add: entry_ok_def nd)
qed

lemma candidates_registered:
  assumes "\<forall>nd \<in> rn_entries rn. selected G nd"
  shows "candidates rn \<subseteq> set (node_ids G)"
proof
  fix n assume "n \<in> candidates rn"
  then obtain ni no s where "(ni, n, no, s) \<in> rn_entries rn"
    by (auto simp: candidates_def)
  with assms have "selected G (ni, n, no, s)"
    by blast
  then show "n \<in> set (node_ids G)"
    by (simp add: selected_def)
qed

lemma simplify_keeps:
  assumes "wf_graph G" and "classify G = Inr rn"
  shows "keeps (candidates rn) G (fst (simplify G))"
proof -
  let ?C = "candidates rn"
  have sel: "\<forall>nd \<in> rn_entries rn. selected G nd"
    using assms(2) by (rule classify_selected)
  have sub: "?C \<subseteq> set (node_ids G)"
    using sel by (rule candidates_registered)
  have "way_state_ok ?C G (fst (foldS simplify_way rn (G, None)))"
  proof (rule foldS_invariant [where I = "way_state_ok ?C G"])
    show "way_state_ok ?C G (G, None)"
      by (simp add: way_state_ok_def)
  next
    fix x s
    assume x: "x \<in> set rn" and s: "way_state_ok ?C G s"
    obtain k nds where xx: "x = (k, nds)"
      by (cases x)
    have "\<forall>nd \<in> set nds. entry_ok (set (node_ids G)) ?C nd"
    proof
      fix nd assume "nd \<in> set nds"
      with x xx have "nd \<in> rn_entries rn"
        by (force simp: rn_entries_def)
      with sel assms(1) show "entry_ok (set (node_ids G)) ?C nd"
        by (auto intro: selected_entry_ok)
    qed
    with s sub xx show "way_state_ok ?C G (fst (simplify_way x s))"
      by (auto intro: simplify_way_ok)
  qed
  then show ?thesis
    using assms(2) by (simp add: simplify_def way_state_ok_def case_prod_beta)
qed

lemma simplify_classify_error: "classify G = Inl err \<Longrightarrow> simplify G = (G, Some err)"
  by (simp add: simplify_def)

section \<open>The simplifier on the graphs of the builder\<close>

text \<open>
  Claim C1 (the code departs from it). The way \<^verbatim>\<open>[100, 101, 102, 103]\<close> has no branch
  point; the claim expects one surviving edge from 100 to 103 that carries the whole
  sequence. The code leaves the receiving edge from 100 to 101 in the graph and adds an edge
  from 100 to 102, the last node of the run: two edges, both carrying the whole sequence, and
  none of them ends at 103.
\<close>

theorem simplify_scenario_edges:
  "snd (simplify (from_pbf [way_a] None no_tags)) = None \<and>
   edge_chains (fst (simplify (from_pbf [way_a] None no_tags))) =
     [(100, 101, [100, 101, 102, 103]), (100, 102, [100, 101, 102, 103])]"
  by code_simp

text \<open>
  Claim C2 (the code departs from it). Before the call the chains of the scenario read
  100, 101, 101, 102, 102, 103; afterwards the whole sequence stands twice, once on each of
  the two edges: the references of the way are duplicated into an extra edge.
\<close>

theorem simplify_scenario_refs:
  "all_refs (from_pbf [way_a] None no_tags) = [100, 101, 101, 102, 102, 103] \<and>
   snd (simplify (from_pbf [way_a] None no_tags)) = None \<and>
   all_refs (fst (simplify (from_pbf [way_a] None no_tags))) =
     [100, 101, 102, 103, 100, 101, 102, 103]"
  by code_simp

lemma simplify_keeps_nodes_aux:
  assumes "wf_graph G"
  shows "nodes (fst (simplify G)) = nodes G"
proof (cases "classify G")
  case (Inl err)
  then show ?thesis
    by (simp add: simplify_classify_error)
next
  case (Inr rn)
  with assms have "keeps (candidates rn) G (fst (simplify G))"
    by (rule simplify_keeps)
  then show ?thesis
    by (simp add: keeps_def)
qed

text \<open>
  Claim C9. A call of \<open>simplify\<close> leaves the node table as it was, whether it returns or
  raises: the same nodes in the same order with the same attributes. Only edges are removed
  and added, so a node that lost its edges stays registered with its coordinates.
\<close>

theorem simplify_keeps_nodes:
  assumes "wf_graph G"
  shows "nodes (fst (simplify G)) = nodes G"
  using assms by (rule simplify_keeps_nodes_aux)

theorem simplify_keeps_nodes_witness:
  "wf_graph (from_pbf [way_a] None no_tags) \<and>
   snd (simplify (from_pbf [way_a] None no_tags)) = None \<and>
   nodes (fst (simplify (from_pbf [way_a] None no_tags))) = nodes (from_pbf [way_a] None no_tags) \<and>
   node_ids (fst (simplify (from_pbf [way_a] None no_tags))) = [100, 101, 102, 103] \<and>
   edge_chains (fst (simplify (from_pbf [way_a] None no_tags))) =
     [(100, 101, [100, 101, 102, 103]), (100, 102, [100, 101, 102, 103])]"
proof -
  let ?G = "from_pbf [way_a] None no_tags"
  have wf: "wf_graph ?G"
    by code_simp
  then have "nodes (fst (simplify ?G)) = nodes ?G"
    by (rule simplify_keeps_nodes)
  moreover have "node_ids ?G = [100, 101, 102, 103]"
    by code_simp
  moreover have "snd (simplify ?G) = None"
    by code_simp
  moreover have "edge_chains (fst (simplify ?G)) =
     [(100, 101, [100, 101, 102, 103]), (100, 102, [100, 101, 102, 103])]"
    by code_simp
  ultimately show ?thesis
    using wf by (simp add: node_ids_def)
qed

lemma get_edge_in_pair:
  "get_edge G u v k = Inr e \<Longrightarrow> e \<in> set (edges G) \<and> eu e = u \<and> ev e = v"
proof -
  assume a: "get_edge G u v k = Inr e"
  then obtain r where "filter (\<lambda>e. py_eq (ekey e) k) (pair_edges G u v) = e # r"
    by (auto simp: get_edge_def split: list.splits)
  then have "e \<in> set (filter (\<lambda>e. py_eq (ekey e) k) (pair_edges G u v))"
    by simp
  then show ?thesis
    by (simp add: pair_edges_def)
qed

lemma singleton_filter: "filter P xs = [y] \<Longrightarrow> x \<in> set xs \<Longrightarrow> P x \<Longrightarrow> x = y"
proof -
  assume a: "filter P xs = [y]" and b: "x \<in> set xs" "P x"
  from b have "x \<in> set (filter P xs)"
    by simp
  then have "x \<in> set [y]"
    by (simp only: a)
  then show ?thesis
    by simp
qed

lemma singleton_hd: "length xs = 1 \<Longrightarrow> xs = [hd xs]"
  by (cases xs) auto

text \<open>
  A node between two edges of different ways. Let a node have exactly one incoming and
  exactly one outgoing edge, with different \<^verbatim>\<open>osm_id\<close> values. Then the first loop of
  \<open>simplify\<close> does not select the node, and the call, whether it returns or raises, keeps
  the node registered and keeps its outgoing edge in the graph (the edge may have received a
  longer \<^verbatim>\<open>ndref\<close>, as the receiving edge of a run that starts behind the node). Every
  node the first loop selects has exactly one predecessor node and exactly one successor
  node, and the edges with key 0 from the one and to the other carry equal \<^verbatim>\<open>osm_id\<close>
  values.
\<close>

lemma branch_point_survives:
  assumes "wf_graph G"
    and "in_edges G n = [edge_in]"
    and "out_edges G n = [edge_out]"
    and "edata edge_in ''osm_id'' = Some a"
    and "edata edge_out ''osm_id'' = Some b"
    and "\<not> py_eq a b"
  shows "n \<in> set (node_ids (fst (simplify G))) \<and>
         (\<exists>e' \<in> set (edges (fst (simplify G))). same_but_ndref edge_out e') \<and>
         (\<forall>rn. classify G = Inr rn \<longrightarrow>
            n \<notin> candidates rn \<and> (\<forall>nd \<in> rn_entries rn. selected G nd))"
proof -
  have ein: "edge_in \<in> set (edges G)" "ev edge_in = n"
    using assms(2) filter_eq_ConsD [of "\<lambda>e. ev e = n" "edges G" edge_in "[]"]
    by (auto simp: in_edges_def)
  with assms(1) have "n \<in> set (node_ids G)"
    by (auto simp: wf_graph_def list_all_iff)
  moreover have "nodes (fst (simplify G)) = nodes G"
    using assms(1) by (rule simplify_keeps_nodes_aux)
  ultimately have n: "n \<in> set (node_ids (fst (simplify G)))"
    by (simp add: node_ids_def)
  have eout: "edge_out \<in> set (edges G)" "eu edge_out = n"
    using assms(3) filter_eq_ConsD [of "\<lambda>e. eu e = n" "edges G" edge_out "[]"]
    by (auto simp: out_edges_def)
  have cls: "n \<notin> candidates rn \<and> (\<forall>nd \<in> rn_entries rn. selected G nd)"
    if rn: "classify G = Inr rn" for rn
  proof -
    have sel: "\<forall>nd \<in> rn_entries rn. selected G nd"
      using rn by (rule classify_selected)
    have "n \<notin> candidates rn"
    proof
      assume "n \<in> candidates rn"
      then obtain ni no s where "(ni, n, no, s) \<in> rn_entries rn"
        by (auto simp: candidates_def)
      with sel have s: "selected G (ni, n, no, s)"
        by blast
      then obtain ein eout where ein: "get_edge G ni n (VInt 0) = Inr ein"
        and eout: "get_edge G n no (VInt 0) = Inr eout"
        by (auto simp: selected_def split: sum.splits)
      from get_edge_in_pair [OF ein] assms(2) have "ein = edge_in"
        by (auto simp: in_edges_def intro: singleton_filter)
      moreover from get_edge_in_pair [OF eout] assms(3) have "eout = edge_out"
        by (auto simp: out_edges_def intro: singleton_filter)
      ultimately have "py_eq a b"
        using s ein eout assms(4,5) by (simp add: selected_def)
      with assms(6) show False
        by simp
    qed
    with sel show ?thesis
      by simp
  qed
  have out: "\<exists>e' \<in> set (edges (fst (simplify G))). same_but_ndref edge_out e'"
  proof (cases "classify G")
    case (Inl err)
    with eout(1) show ?thesis
      by (simp add: simplify_classify_error same_but_ndref_self)
  next
    case (Inr rn)
    with assms(1) have "keeps (candidates rn) G (fst (simplify G))"
      by (rule simplify_keeps)
    with cls [OF Inr] eout show ?thesis
      by (simp add: keeps_def)
  qed
  from n out cls show ?thesis
    by blast
qed

lemma branch_point_survives_example:
  "wf_graph (from_pbf [way_c, way_d] None no_tags) \<and>
   map (\<lambda>e. (eu e, ev e, edata e ''osm_id'')) (in_edges (from_pbf [way_c, way_d] None no_tags) 102) =
     [(101, 102, Some (VInt 7))] \<and>
   map (\<lambda>e. (eu e, ev e, edata e ''osm_id'')) (out_edges (from_pbf [way_c, way_d] None no_tags) 102) =
     [(102, 103, Some (VInt 8))] \<and>
   \<not> py_eq (VInt 7) (VInt 8) \<and>
   classify (from_pbf [way_c, way_d] None no_tags) = Inr [(VInt 7, [(100, 101, 102, VInt 0)])] \<and>
   102 \<notin> candidates [(VInt 7, [(100, 101, 102, VInt 0)])] \<and>
   snd (simplify (from_pbf [way_c, way_d] None no_tags)) = None \<and>
   102 \<in> set (node_ids (fst (simplify (from_pbf [way_c, way_d] None no_tags)))) \<and>
   (\<exists>e' \<in> set (edges (fst (simplify (from_pbf [way_c, way_d] None no_tags)))).
      same_but_ndref (hd (out_edges (from_pbf [way_c, way_d] None no_tags) 102)) e')"
proof -
  let ?G = "from_pbf [way_c, way_d] None no_tags"
  let ?ein = "hd (in_edges ?G 102)"
  let ?eout = "hd (out_edges ?G 102)"
  have wf: "wf_graph ?G"
    by code_simp
  have "length (in_edges ?G 102) = 1"
    by code_simp
  then have i: "in_edges ?G 102 = [?ein]"
    by (rule singleton_hd)
  have "length (out_edges ?G 102) = 1"
    by code_simp
  then have out: "out_edges ?G 102 = [?eout]"
    by (rule singleton_hd)
  have a: "edata ?ein ''osm_id'' = Some (VInt 7)"
    by code_simp
  have b: "edata ?eout ''osm_id'' = Some (VInt 8)"
    by code_simp
  have ne: "\<not> py_eq (VInt 7) (VInt 8)"
    by (simp add: py_eq_def)
  have ok: "snd (simplify ?G) = None"
    by code_simp
  have cl: "classify ?G = Inr [(VInt 7, [(100, 101, 102, VInt 0)])]"
    by code_simp
  have obs: "map (\<lambda>e. (eu e, ev e, edata e ''osm_id'')) (in_edges ?G 102) =
     [(101, 102, Some (VInt 7))]"
    "map (\<lambda>e. (eu e, ev e, edata e ''osm_id'')) (out_edges ?G 102) =
     [(102, 103, Some (VInt 8))]"
    by code_simp+
  from branch_point_survives [OF wf i out a b ne] cl
  have "102 \<in> set (node_ids (fst (simplify ?G))) \<and>
     (\<exists>e' \<in> set (edges (fst (simplify ?G))). same_but_ndref ?eout e') \<and>
     102 \<notin> candidates [(VInt 7, [(100, 101, 102, VInt 0)])]"
    by simp
  with wf obs ne cl ok show ?thesis
    by simp
qed

text \<open>
  Claim C7 (the code departs from it). The ways 7 over the nodes 100, 101, 102, 103 and 8
  over the nodes 100, 101 share their first segment, so node 101 has two incoming edges,
  one of each way, and is the end of way 8. The first loop counts neighbouring nodes and
  reads the edges with key 0 only: both incoming edges come from node 100 and the one with
  key 0 belongs to way 7, so node 101 is selected although two ways meet there. The call
  then removes the edge from 101 to 102, and node 101 is left with no outgoing edge.
\<close>

theorem shared_segment_node_classified:
  "map (\<lambda>e. (eu e, ev e, ekey e, edata e ''osm_id''))
     (in_edges (from_pbf [way_a, way_b] None no_tags) 101) =
     [(100, 101, VInt 0, Some (VInt 7)), (100, 101, VInt 1, Some (VInt 8))] \<and>
   map (\<lambda>e. (eu e, ev e, ekey e, edata e ''osm_id''))
     (out_edges (from_pbf [way_a, way_b] None no_tags) 101) =
     [(101, 102, VInt 0, Some (VInt 7))] \<and>
   classify (from_pbf [way_a, way_b] None no_tags) =
     Inr [(VInt 7, [(100, 101, 102, VInt 0), (101, 102, 103, VInt 1)])] \<and>
   snd (simplify (from_pbf [way_a, way_b] None no_tags)) = None \<and>
   map (\<lambda>e. (eu e, ev e, ekey e, edata e ''osm_id''))
     (edges (fst (simplify (from_pbf [way_a, way_b] None no_tags)))) =
     [(100, 101, VInt 0, Some (VInt 7)), (100, 101, VInt 1, Some (VInt 8)),
      (100, 102, VInt 0, Some (VInt 7))]"
  by code_simp

section \<open>Geometry construction\<close>

lemma nodes_set_edata [simp]: "nodes (set_edata G e d) = nodes G"
  by (simp add: set_edata_def)















text \<open>
  Claim C4 (the code departs from it). On the scenario graph, built and then simplified,
  both edges receive the geometry of the whole way. The edge from 100 to 101 ends at
  \<open>(4, 40)\<close>, the coordinates of node 103, while node 101 is registered at \<open>(2, 20)\<close>; the
  edge from 100 to 102 ends there too, while node 102 is registered at \<open>(3, 30)\<close>.
\<close>

theorem geometry_scenario_endpoints:
  "snd (simplify (from_pbf [way_a] None no_tags)) = None \<and>
   snd (construct_geometries zero_length (fst (simplify (from_pbf [way_a] None no_tags)))) = None \<and>
   edge_geometries
     (fst (construct_geometries zero_length (fst (simplify (from_pbf [way_a] None no_tags))))) =
     [(100, 101, [(1, 10), (2, 20), (3, 30), (4, 40)]),
      (100, 102, [(1, 10), (2, 20), (3, 30), (4, 40)])] \<and>
   registered_coords
     (fst (construct_geometries zero_length (fst (simplify (from_pbf [way_a] None no_tags))))) 101 =
     Some (VFloat 2, VFloat 20) \<and>
   registered_coords
     (fst (construct_geometries zero_length (fst (simplify (from_pbf [way_a] None no_tags))))) 102 =
     Some (VFloat 3, VFloat 30)"
  by code_simp

section \<open>Filtering\<close>





















section \<open>The exchange format\<close>












end
